theory Spec2Isabelle
  imports Main "HOL-Library.Word"
begin

unbundle bit_operations_syntax

section \<open>Raster images (Pillow mode "1")\<close>

text \<open>
  The printer module works on Pillow images of mode \<^verbatim>\<open>"1"\<close>: a size and one sample per
  pixel that is either 0 or 255. A sample is modelled by a boolean, \<open>True\<close> for the
  non-zero sample 255 (the colour \<^verbatim>\<open>"white"\<close>), \<open>False\<close> for 0. Pixel \<open>(x, y)\<close> is
  column \<open>x\<close> of row \<open>y\<close>, the origin is the top left corner. Only the samples with
  \<open>x < width\<close> and \<open>y < height\<close> belong to the image.
\<close>

type_synonym byte = "8 word"

record image =
  width :: nat
  height :: nat
  getpixel :: "nat \<Rightarrow> nat \<Rightarrow> bool"

definition PRINT_WIDTH :: nat where
  "PRINT_WIDTH = 384"

text \<open>\<^verbatim>\<open>Image.new("1", (w, h), colour)\<close>: every sample is the fill colour.\<close>

definition new_image :: "nat \<Rightarrow> nat \<Rightarrow> bool \<Rightarrow> image" where
  "new_image w h fill = \<lparr>width = w, height = h, getpixel = (\<lambda>x y. fill)\<rparr>"

text \<open>
  \<^verbatim>\<open>dst.paste(src, (ox, oy))\<close>: the samples of \<open>src\<close> replace those of \<open>dst\<close> in the
  rectangle whose top left corner is \<open>(ox, oy)\<close>; the size of \<open>dst\<close> stays.
\<close>

definition paste :: "image \<Rightarrow> image \<Rightarrow> nat \<times> nat \<Rightarrow> image" where
  "paste dst src pos =
     (case pos of (ox, oy) \<Rightarrow>
        dst\<lparr>getpixel := (\<lambda>x y.
          if ox \<le> x \<and> x < ox + width src \<and> oy \<le> y \<and> y < oy + height src
          then getpixel src (x - ox) (y - oy)
          else getpixel dst x y)\<rparr>)"

text \<open>
  \<^verbatim>\<open>img.crop((left, upper, right, lower))\<close>: a new image of size
  \<open>(right - left, lower - upper)\<close>; samples taken outside the source are 0.
\<close>

definition crop :: "image \<Rightarrow> nat \<times> nat \<times> nat \<times> nat \<Rightarrow> image" where
  "crop img box =
     (case box of (left, upper, right, lower) \<Rightarrow>
        \<lparr>width = right - left, height = lower - upper,
         getpixel = (\<lambda>x y.
           x + left < width img \<and> y + upper < height img \<and> getpixel img (x + left) (y + upper))\<rparr>)"

text \<open>\<^verbatim>\<open>img.point(lambda x: 255 - x)\<close>: every sample is inverted.\<close>

definition invert :: "image \<Rightarrow> image" where
  "invert img = img\<lparr>getpixel := (\<lambda>x y. \<not> getpixel img x y)\<rparr>"

text \<open>
  \<^verbatim>\<open>img.getbbox()\<close>: the bounding box \<open>(left, upper, right, lower)\<close> of the non-zero
  samples of the image, \<open>right\<close> and \<open>lower\<close> exclusive; \<^verbatim>\<open>None\<close> when every sample
  is 0.
\<close>

definition getbbox :: "image \<Rightarrow> (nat \<times> nat \<times> nat \<times> nat) option" where
  "getbbox img =
     (let cols = filter (\<lambda>x. list_ex (\<lambda>y. getpixel img x y) [0..<height img]) [0..<width img];
          rows = filter (\<lambda>y. list_ex (\<lambda>x. getpixel img x y) [0..<width img]) [0..<height img]
      in if rows = [] then None
         else Some (hd cols, hd rows, last cols + 1, last rows + 1))"

subsection \<open>Packing the samples into bytes\<close>

text \<open>
  Modelled from the spec: \<^verbatim>\<open>img.tobytes()\<close> is Pillow's, not this repository's. The
  specification words it as: pixels are serialised row-major, 8 pixels per byte,
  most-significant-bit first within a byte, \<open>width/8\<close> bytes per row. A set bit is a
  non-zero sample. A row whose width is no multiple of 8 is padded with 0 bits to a
  whole byte.
\<close>

definition pack_byte :: "bool list \<Rightarrow> byte" where
  "pack_byte bs = foldl (\<lambda>acc b. push_bit 1 acc OR of_bool b) 0 bs"

definition row_bits :: "image \<Rightarrow> nat \<Rightarrow> nat \<Rightarrow> bool list" where
  "row_bits img y k = map (\<lambda>i. 8 * k + i < width img \<and> getpixel img (8 * k + i) y) [0..<8]"

definition tobytes_row :: "image \<Rightarrow> nat \<Rightarrow> byte list" where
  "tobytes_row img y = map (\<lambda>k. pack_byte (row_bits img y k)) [0..<(width img + 7) div 8]"

definition tobytes :: "image \<Rightarrow> byte list" where
  "tobytes img = concat (map (tobytes_row img) [0..<height img])"

text \<open>
  Modelled from the spec: the inverse reading of a payload "using the documented bit
  order". The repository has no unpacking function. Pixel \<open>(x, y)\<close> of an image of
  width \<open>w\<close> is bit \<open>7 - x mod 8\<close> of byte \<open>y * (w div 8) + x div 8\<close>.
\<close>

definition unpack_pixel :: "nat \<Rightarrow> byte list \<Rightarrow> nat \<Rightarrow> nat \<Rightarrow> bool" where
  "unpack_pixel w payload x y = bit (payload ! (y * (w div 8) + x div 8)) (7 - x mod 8)"

definition unpack :: "nat \<Rightarrow> nat \<Rightarrow> byte list \<Rightarrow> bool list list" where
  "unpack w h payload = map (\<lambda>y. map (\<lambda>x. unpack_pixel w payload x y) [0..<w]) [0..<h]"

definition pixel_grid :: "image \<Rightarrow> bool list list" where
  "pixel_grid img = map (\<lambda>y. map (\<lambda>x. getpixel img x y) [0..<width img]) [0..<height img]"

section \<open>The command encoder: \<^verbatim>\<open>TinyPrinter.print_bitmap\<close>\<close>

text \<open>
  Lines 184 to 195 of \<^verbatim>\<open>printer.py\<close>: an image whose width is not \<open>PRINT_WIDTH\<close> is
  replaced by one of that width. A narrower image is pasted at
  \<open>offset = (PRINT_WIDTH - width) // 2\<close> on a new white image; a wider one is cropped
  to the box \<open>(0, 0, PRINT_WIDTH, height)\<close>.
\<close>

definition print_bitmap_canvas :: "image \<Rightarrow> image" where
  "print_bitmap_canvas img =
     (if width img \<noteq> PRINT_WIDTH then
        (let new_img = new_image PRINT_WIDTH (height img) True in
         if width img < PRINT_WIDTH then
           (let offset = (PRINT_WIDTH - width img) div 2 in paste new_img img (offset, 0))
         else crop img (0, 0, PRINT_WIDTH, height img))
      else img)"

text \<open>
  Lines 181 to 211: the byte array handed to \<^verbatim>\<open>send_data\<close>. \<open>h\<close> is the height read
  from the input image on line 181, \<open>w\<close> the width after the normalisation. Python's
  \<^verbatim>\<open>v & 0xFF\<close> and \<^verbatim>\<open>v >> 8\<close> are \<open>AND\<close> and \<open>drop_bit\<close>; \<^verbatim>\<open>bytearray.append\<close> takes
  a value below 256, which the masks guarantee.
\<close>

definition print_bitmap_command :: "image \<Rightarrow> byte list" where
  "print_bitmap_command img =
     (let h = height img;
          canvas = print_bitmap_canvas img;
          w = (if width img \<noteq> PRINT_WIDTH then PRINT_WIDTH else width img);
          pixels = tobytes canvas;
          width_bytes = w div 8
      in [0x1B, 0x40]
         @ [0x1D, 0x76, 0x30, 0x00]
         @ [of_nat (width_bytes AND 0xFF)]
         @ [of_nat (drop_bit 8 width_bytes AND 0xFF)]
         @ [of_nat (h AND 0xFF)]
         @ [of_nat (drop_bit 8 h AND 0xFF)]
         @ pixels
         @ [0x0A, 0x0A, 0x0A])"

text \<open>
  Line 48 and line 214: \<^verbatim>\<open>send_data\<close> asserts that a client is connected and writes
  the bytes to the printer's characteristic. The model returns the bytes written; the
  write itself belongs to the Bluetooth library. \<^verbatim>\<open>print_bitmap\<close> passes bytes, so the
  branch for a \<^verbatim>\<open>str\<close> is not taken. These are the exceptions the module's own code
  raises: \<^verbatim>\<open>ValueError\<close> (from \<^verbatim>\<open>max\<close> of an empty list, or from
  \<^verbatim>\<open>Image.new\<close> with a negative size) and \<^verbatim>\<open>AssertionError\<close>.
\<close>

datatype error = ValueError | AssertionError

definition send_data :: "bool \<Rightarrow> byte list \<Rightarrow> error + byte list" where
  "send_data connected data = (if connected then Inr data else Inl AssertionError)"

definition print_bitmap :: "bool \<Rightarrow> image \<Rightarrow> error + byte list" where
  "print_bitmap connected img = send_data connected (print_bitmap_command img)"

section \<open>Strings\<close>

text \<open>
  A Python \<^verbatim>\<open>str\<close> is a sequence of Unicode code points, modelled by a list of
  naturals. The code points used by the module: 10 is the line feed, 32 the space,
  35 \<^verbatim>\<open>#\<close>, 42 \<^verbatim>\<open>*\<close>, 92 the backslash, 110 \<^verbatim>\<open>n\<close>, 8226 the bullet (U+2022), 9633 the
  white square (U+25A1) and 9744 the ballot box (U+2610).
\<close>

type_synonym str = "nat list"

text \<open>
  \<^verbatim>\<open>s.replace(old, new)\<close>: every occurrence of \<open>old\<close> is replaced, scanning from the
  left, occurrences not overlapping. An empty \<open>old\<close> matches before every character
  and at the end.
\<close>

function str_replace :: "str \<Rightarrow> str \<Rightarrow> str \<Rightarrow> str" where
  "str_replace s old new =
     (if old = [] then new @ concat (map (\<lambda>c. c # new) s)
      else if s = [] then []
      else if take (length old) s = old then new @ str_replace (drop (length old) s) old new
      else hd s # str_replace (tl s) old new)"
  by pat_completeness auto
termination
  by (relation "measure (\<lambda>(s, old, new). length s)") auto

declare str_replace.simps [simp del]

text \<open>\<^verbatim>\<open>s.split(sep)\<close> for a separator of one character.\<close>

fun str_split :: "str \<Rightarrow> nat \<Rightarrow> str list" where
  "str_split [] sep = [[]]"
| "str_split (c # cs) sep =
     (if c = sep then [] # str_split cs sep
      else (case str_split cs sep of [] \<Rightarrow> [[c]] | l # ls \<Rightarrow> (c # l) # ls))"

text \<open>\<^verbatim>\<open>str.isspace\<close> of one character, which is what \<^verbatim>\<open>s.strip()\<close> removes.\<close>

definition isspace :: "nat \<Rightarrow> bool" where
  "isspace c \<longleftrightarrow>
     (9 \<le> c \<and> c \<le> 13) \<or> (28 \<le> c \<and> c \<le> 32) \<or> c = 133 \<or> c = 160 \<or> c = 5760
     \<or> (8192 \<le> c \<and> c \<le> 8202) \<or> c = 8232 \<or> c = 8233 \<or> c = 8239 \<or> c = 8287
     \<or> c = 12288"

definition str_strip :: "str \<Rightarrow> str" where
  "str_strip s = rev (dropWhile isspace (rev (dropWhile isspace s)))"

text \<open>
  \<^verbatim>\<open>max(lines, key=len)\<close>: the first line of the greatest length; \<^verbatim>\<open>ValueError\<close> on
  an empty list.
\<close>

fun max_len :: "str list \<Rightarrow> error + str" where
  "max_len [] = Inl ValueError"
| "max_len (l # ls) = Inr (foldl (\<lambda>best x. if length best < length x then x else best) l ls)"

section \<open>The rasteriser\<close>

subsection \<open>\<^verbatim>\<open>TinyPrinter.markdown_to_bitmap\<close>\<close>

text \<open>Lines 57 to 63: the chain of replacements on the input text.\<close>

definition markdown_to_bitmap_text :: "str \<Rightarrow> str" where
  "markdown_to_bitmap_text markdown_text =
     str_replace
       (str_replace
         (str_replace
           (str_replace
             (str_replace markdown_text [92, 110] [10])
             [9633] [8226, 32])
           [9744] [8226, 32])
         [35] [])
       [42] []"

text \<open>
  Lines 66 to 86. Drawing text is Pillow's work and depends on the fonts of the
  machine, so it is a parameter: \<open>rasterize text x y\<close> is the sample at \<open>(x, y)\<close> of
  the 384 by 2000 image after \<^verbatim>\<open>multiline_text((10, 10), text)\<close> in black on white and
  \<^verbatim>\<open>convert("1")\<close>; \<open>True\<close> is the non-zero sample (white), \<open>False\<close> is ink. The
  function then crops to the bounding box, if there is one, and inverts.
\<close>

definition markdown_to_bitmap :: "(str \<Rightarrow> nat \<Rightarrow> nat \<Rightarrow> bool) \<Rightarrow> str \<Rightarrow> image" where
  "markdown_to_bitmap rasterize markdown_text =
     (let text = markdown_to_bitmap_text markdown_text;
          img = \<lparr>width = PRINT_WIDTH, height = 2000, getpixel = rasterize text\<rparr>;
          bbox = getbbox img;
          img = (case bbox of Some box \<Rightarrow> crop img box | None \<Rightarrow> img)
      in invert img)"

text \<open>
  The desymbolising step in the specification's words, as one pass over the text: a
  backslash followed by \<^verbatim>\<open>n\<close> becomes a line feed, each of the two checkbox glyphs
  becomes a bullet and a space, \<^verbatim>\<open>#\<close> and \<^verbatim>\<open>*\<close> are dropped.
\<close>

fun desymbolize_spec :: "str \<Rightarrow> str" where
  "desymbolize_spec [] = []"
| "desymbolize_spec [c] =
     (if c = 9633 \<or> c = 9744 then [8226, 32]
      else if c = 35 \<or> c = 42 then []
      else [c])"
| "desymbolize_spec (c # d # cs) =
     (if c = 92 \<and> d = 110 then 10 # desymbolize_spec cs
      else if c = 9633 \<or> c = 9744 then 8226 # 32 # desymbolize_spec (d # cs)
      else if c = 35 \<or> c = 42 then desymbolize_spec (d # cs)
      else c # desymbolize_spec (d # cs))"

text \<open>What the four replacements of single characters do to one character.\<close>

definition desym_char :: "nat \<Rightarrow> str" where
  "desym_char c =
     (if c = 9633 \<or> c = 9744 then [8226, 32] else if c = 35 \<or> c = 42 then [] else [c])"

subsection \<open>\<^verbatim>\<open>TinyPrinter.text_to_bitmap\<close>\<close>

text \<open>Lines 91 and 92: split on line feeds, strip every line, drop the empty ones.\<close>

definition text_to_bitmap_lines :: "str \<Rightarrow> str list" where
  "text_to_bitmap_lines text = filter (\<lambda>line. line \<noteq> []) (map str_strip (str_split text 10))"

text \<open>
  Lines 98 to 130: the search for the font size. \<open>text_width fsize\<close> is the width
  \<^verbatim>\<open>bbox[2] - bbox[0]\<close> that \<^verbatim>\<open>textbbox\<close> reports for the longest line in the font
  loaded for \<open>fsize\<close>. The three state variables of the loop are its arguments.
\<close>

function font_search :: "(int \<Rightarrow> int) \<Rightarrow> int \<Rightarrow> int \<Rightarrow> int \<Rightarrow> int" where
  "font_search text_width min_font max_font best_font_size =
     (if min_font \<le> max_font then
        (if text_width ((min_font + max_font) div 2) \<le> int PRINT_WIDTH - 20
         then font_search text_width ((min_font + max_font) div 2 + 1) max_font
                ((min_font + max_font) div 2)
         else font_search text_width min_font ((min_font + max_font) div 2 - 1)
                best_font_size)
      else best_font_size)"
  by pat_completeness auto
termination
  by (relation "measure (\<lambda>(tw, min_font, max_font, best). nat (max_font + 1 - min_font))") auto

declare font_search.simps [simp del]

text \<open>
  Measuring and drawing are Pillow's and depend on the fonts of the machine; they are
  parameters. \<open>textbbox fsize line\<close> is the box \<open>(x0, y0, x1, y1)\<close> of
  \<^verbatim>\<open>textbbox((0, 0), line, font)\<close> for the font that the chain of \<^verbatim>\<open>try\<close> blocks loads
  for \<open>fsize\<close>; \<open>draw_text fsize pos line img\<close> is \<open>img\<close> after \<^verbatim>\<open>draw.text(pos, line)\<close>
  in black.
\<close>

definition bbox_width :: "int \<times> int \<times> int \<times> int \<Rightarrow> int" where
  "bbox_width bbox = (case bbox of (x0, y0, x1, y1) \<Rightarrow> x1 - x0)"

definition bbox_height :: "int \<times> int \<times> int \<times> int \<Rightarrow> int" where
  "bbox_height bbox = (case bbox of (x0, y0, x1, y1) \<Rightarrow> y1 - y0)"

definition best_font_size :: "(int \<Rightarrow> str \<Rightarrow> int \<times> int \<times> int \<times> int) \<Rightarrow> str \<Rightarrow> int" where
  "best_font_size textbbox longest_line =
     font_search (\<lambda>fsize. bbox_width (textbbox fsize longest_line)) 8 200 16"

text \<open>Lines 163 to 172: the loop that draws the lines, each centred on its own width.\<close>

fun draw_lines ::
  "(int \<Rightarrow> str \<Rightarrow> int \<times> int \<times> int \<times> int) \<Rightarrow> (int \<Rightarrow> int \<times> int \<Rightarrow> str \<Rightarrow> image \<Rightarrow> image)
   \<Rightarrow> int \<Rightarrow> (str \<times> int) list \<Rightarrow> int \<Rightarrow> image \<Rightarrow> image" where
  "draw_lines textbbox draw_text fsize [] y_pos img = img"
| "draw_lines textbbox draw_text fsize ((line, line_height) # rest) y_pos img =
     (let line_width = bbox_width (textbbox fsize line);
          x = (int PRINT_WIDTH - line_width) div 2
      in draw_lines textbbox draw_text fsize rest (y_pos + (line_height + 5))
           (draw_text fsize (x, y_pos) line img))"

definition text_to_bitmap ::
  "(int \<Rightarrow> str \<Rightarrow> int \<times> int \<times> int \<times> int) \<Rightarrow> (int \<Rightarrow> int \<times> int \<Rightarrow> str \<Rightarrow> image \<Rightarrow> image)
   \<Rightarrow> str \<Rightarrow> error + image" where
  "text_to_bitmap textbbox draw_text text =
     (let lines = text_to_bitmap_lines text in
      case max_len lines of
        Inl e \<Rightarrow> Inl e
      | Inr longest_line \<Rightarrow>
          (let fsize = best_font_size textbbox longest_line;
               line_heights = map (\<lambda>line. bbox_height (textbbox fsize line)) lines;
               total_height = 10 + sum_list (map (\<lambda>h. h + 5) line_heights)
           in if total_height + 10 < 0 then Inl ValueError
              else Inr (invert (draw_lines textbbox draw_text fsize (zip lines line_heights) 10
                         (new_image PRINT_WIDTH (nat (total_height + 10)) True)))))"

section \<open>Example inputs\<close>

text \<open>
  The image of the specification's round-trip example: 384 by 8, the top two rows
  black (sample 0), the rest white.
\<close>

definition example_image :: image where
  "example_image = \<lparr>width = 384, height = 8, getpixel = (\<lambda>x y. 2 \<le> y)\<rparr>"

text \<open>
  An image wider than the printer: 392 by 1, white in the columns below 384 and black
  from column 384 on.
\<close>

definition wide_image :: image where
  "wide_image = \<lparr>width = 392, height = 1, getpixel = (\<lambda>x y. x < 384)\<rparr>"

text \<open>
  Stand-ins for Pillow in the examples. \<open>textbbox_scalable\<close> measures a font whose
  characters are \<open>fsize\<close> wide and \<open>fsize\<close> high; \<open>draw_text_none\<close> leaves the image
  as it is; \<open>rasterize_block\<close> draws a text as one block of ink, 12 pixels wide for
  every character and 24 high, with its top left corner at \<open>(10, 10)\<close>.
\<close>

definition textbbox_scalable :: "int \<Rightarrow> str \<Rightarrow> int \<times> int \<times> int \<times> int" where
  "textbbox_scalable fsize line = (0, 0, fsize * int (length line), fsize)"

definition draw_text_none :: "int \<Rightarrow> int \<times> int \<Rightarrow> str \<Rightarrow> image \<Rightarrow> image" where
  "draw_text_none fsize pos line img = img"

definition rasterize_block :: "str \<Rightarrow> nat \<Rightarrow> nat \<Rightarrow> bool" where
  "rasterize_block text x y \<longleftrightarrow>
     \<not> (text \<noteq> [] \<and> 10 \<le> x \<and> x < 10 + 12 * length text \<and> 10 \<le> y \<and> y < 34)"

section \<open>Properties of the packing\<close>

lemma and_255_nat: "(h::nat) AND 255 = h mod 256"
  using take_bit_eq_mask[of 8 h] by (simp add: take_bit_eq_mod mask_eq_exp_minus_1)

lemma length_tobytes_row: "length (tobytes_row img y) = (width img + 7) div 8"
  by (simp add: tobytes_row_def)

lemma length_concat_const:
  "(\<And>x. x \<in> set xs \<Longrightarrow> length (f x) = n) \<Longrightarrow> length (concat (map f xs)) = n * length xs"
  by (induction xs) simp_all

lemma length_tobytes: "length (tobytes img) = (width img + 7) div 8 * height img"
  unfolding tobytes_def by (simp add: length_concat_const length_tobytes_row)

lemma nth_concat_const:
  "(\<And>x. x \<in> set xs \<Longrightarrow> length (f x) = n) \<Longrightarrow> i < length xs \<Longrightarrow> k < n \<Longrightarrow>
   concat (map f xs) ! (i * n + k) = f (xs ! i) ! k"
proof (induction xs arbitrary: i)
  case Nil
  then show ?case by simp
next
  case (Cons a xs)
  show ?case
  proof (cases i)
    case 0
    with Cons.prems show ?thesis by (simp add: nth_append)
  next
    case (Suc j)
    with Cons.prems have "concat (map f xs) ! (j * n + k) = f (xs ! j) ! k"
      by (intro Cons.IH) simp_all
    with Suc Cons.prems show ?thesis by (simp add: nth_append add.assoc)
  qed
qed

lemma nth_tobytes:
  "y < height img \<Longrightarrow> k < (width img + 7) div 8 \<Longrightarrow>
   tobytes img ! (y * ((width img + 7) div 8) + k) = pack_byte (row_bits img y k)"
  unfolding tobytes_def
  using nth_concat_const[of "[0..<height img]" "tobytes_row img" "(width img + 7) div 8" y k]
  by (simp add: length_tobytes_row tobytes_row_def)

text \<open>Shifting the accumulator left for every sample puts the first sample in the top bit.\<close>

lemma pack_byte_horner:
  "foldl (\<lambda>acc b. push_bit 1 acc OR of_bool b) (0::byte) bs = horner_sum of_bool 2 (rev bs)"
proof (induction bs rule: rev_induct)
  case Nil
  then show ?case by simp
next
  case (snoc b bs)
  have "push_bit 1 (w::byte) OR of_bool b = of_bool b + 2 * w" for w
    by (cases b) (simp_all add: push_bit_eq_mult or_one_eq mult.commute)
  with snoc show ?case by simp
qed

lemma bit_pack_byte:
  "length bs = 8 \<Longrightarrow> i < 8 \<Longrightarrow> bit (pack_byte bs) (7 - i) = bs ! i"
  unfolding pack_byte_def pack_byte_horner
  by (auto simp add: bit_horner_sum_bit_iff rev_nth)

lemma unpack_pixel_tobytes:
  assumes "width img = 384" "x < 384" "y < height img"
  shows "unpack_pixel 384 (tobytes img) x y = getpixel img x y"
proof -
  have k: "x div 8 < (width img + 7) div 8" using assms by simp
  have "tobytes img ! (y * 48 + x div 8) = pack_byte (row_bits img y (x div 8))"
    using nth_tobytes[OF assms(3) k] assms(1) by simp
  moreover have "bit (pack_byte (row_bits img y (x div 8))) (7 - x mod 8)
      = row_bits img y (x div 8) ! (x mod 8)"
    by (rule bit_pack_byte) (simp_all add: row_bits_def)
  moreover have "row_bits img y (x div 8) ! (x mod 8) = getpixel img x y"
    using assms by (simp add: row_bits_def)
  ultimately show ?thesis by (simp add: unpack_pixel_def)
qed

section \<open>Properties of the command encoder\<close>

lemma width_print_bitmap_canvas: "width (print_bitmap_canvas img) = 384"
  by (simp add: print_bitmap_canvas_def PRINT_WIDTH_def new_image_def paste_def crop_def Let_def)

lemma height_print_bitmap_canvas: "height (print_bitmap_canvas img) = height img"
  by (simp add: print_bitmap_canvas_def PRINT_WIDTH_def new_image_def paste_def crop_def Let_def)

lemma length_payload: "length (tobytes (print_bitmap_canvas img)) = 48 * height img"
  by (simp add: length_tobytes width_print_bitmap_canvas height_print_bitmap_canvas)

lemma unat_byte_mod: "unat (of_nat (n mod 256) :: byte) = n mod 256"
  by (simp add: unat_of_nat)

lemma header_height_decode:
  "unat (of_nat (h mod 256) :: byte) + 256 * unat (of_nat (h div 256 mod 256) :: byte)
     = h mod 65536"
  using mod_mult2_eq[of h 256 256] by (simp add: unat_byte_mod)

lemma print_bitmap_command_eq:
  "print_bitmap_command img =
     [0x1B, 0x40, 0x1D, 0x76, 0x30, 0x00, 0x30, 0x00,
      of_nat (height img mod 256), of_nat (height img div 256 mod 256)]
     @ tobytes (print_bitmap_canvas img) @ [0x0A, 0x0A, 0x0A]"
  by (simp add: print_bitmap_command_def Let_def PRINT_WIDTH_def and_255_nat drop_bit_eq_div)

text \<open>
  Claim C9. For an image of width 384 and height \<open>h\<close> the command built by
  \<^verbatim>\<open>print_bitmap\<close> is \<open>13 + 48 * h\<close> bytes long: 2 for the reset, 4 for the raster
  opcode, 4 for the header, 48 for every row and 3 for the paper feed.
\<close>

theorem print_bitmap_command_length:
  "width img = 384 \<Longrightarrow> length (print_bitmap_command img) = 13 + 48 * height img"
  by (simp add: print_bitmap_command_eq length_payload)

theorem print_bitmap_command_length_witness:
  "width (new_image 384 2 False) = 384
   \<and> length (print_bitmap_command (new_image 384 2 False)) = 109"
  using print_bitmap_command_length [of "new_image 384 2 False"]
  by (simp add: new_image_def)

lemma print_bitmap_command_nth8: "print_bitmap_command img ! 8 = of_nat (height img mod 256)"
  by (simp add: print_bitmap_command_eq)

lemma print_bitmap_command_nth9:
  "print_bitmap_command img ! 9 = of_nat (height img div 256 mod 256)"
  by (simp add: print_bitmap_command_eq)

lemma print_bitmap_command_drop:
  "drop 10 (print_bitmap_command img) = tobytes (print_bitmap_canvas img) @ [0x0A, 0x0A, 0x0A]"
  by (simp add: print_bitmap_command_eq)

lemma print_bitmap_command_header_height:
  "unat (print_bitmap_command img ! 8) + 256 * unat (print_bitmap_command img ! 9)
     = height img mod 65536"
  unfolding print_bitmap_command_nth8 print_bitmap_command_nth9 by (rule header_height_decode)

lemma length_print_bitmap_command: "length (print_bitmap_command img) = 13 + 48 * height img"
  by (simp add: print_bitmap_command_eq length_payload)

text \<open>
  Claim C4. For an image of width 384 the command is, in this order and with nothing
  else: \<open>1B 40\<close>, then \<open>1D 76 30 00\<close>, then \<open>30 00\<close> (48 bytes per row, little-endian),
  then \<open>yL yH\<close>, the low and the high byte of the height, then the packed bytes of the
  image, then \<open>0A 0A 0A\<close>. The two height bytes read little-endian are the height
  modulo 65536, so the height itself whenever it is below 65536.
\<close>

theorem print_bitmap_command_bytes:
  "width img = 384 \<Longrightarrow>
   print_bitmap_command img =
     [0x1B, 0x40] @ [0x1D, 0x76, 0x30, 0x00] @ [0x30, 0x00]
     @ [of_nat (height img mod 256), of_nat (height img div 256 mod 256)]
     @ tobytes img @ [0x0A, 0x0A, 0x0A]
   \<and> unat (of_nat (height img mod 256) :: byte)
       + 256 * unat (of_nat (height img div 256 mod 256) :: byte) = height img mod 65536"
  by (simp add: print_bitmap_command_eq print_bitmap_canvas_def PRINT_WIDTH_def
      header_height_decode)

theorem print_bitmap_command_bytes_witness:
  "width (new_image 384 300 False) = 384
   \<and> print_bitmap_command (new_image 384 300 False) =
       [0x1B, 0x40, 0x1D, 0x76, 0x30, 0x00, 0x30, 0x00, 0x2C, 0x01]
       @ tobytes (new_image 384 300 False) @ [0x0A, 0x0A, 0x0A]"
  using print_bitmap_command_bytes [of "new_image 384 300 False"]
  by (simp add: new_image_def)

text \<open>
  Claim C8. For an image of width 384, packing the samples row-major, 8 to a byte,
  most significant bit first, and reading the payload back in the same bit order gives
  the grid of samples of the image.
\<close>

theorem pack_unpack_roundtrip:
  "width img = 384 \<Longrightarrow> unpack 384 (height img) (tobytes img) = pixel_grid img"
  by (simp add: unpack_def pixel_grid_def unpack_pixel_tobytes)

theorem pack_unpack_roundtrip_witness:
  "width example_image = 384
   \<and> unpack 384 (height example_image) (tobytes example_image) = pixel_grid example_image"
  using pack_unpack_roundtrip [of example_image] by (simp add: example_image_def)

text \<open>
  Claim C1, as the code has it. \<^verbatim>\<open>print_bitmap\<close> has no check of the height: whatever
  the height, the command is built in full, \<open>13 + 48 * height\<close> bytes, and handed to
  \<^verbatim>\<open>send_data\<close>, whose only failure is the assertion that a client is connected. The
  bytes \<open>yL yH\<close> hold the height modulo 65536: the height itself up to 65535, a
  truncated value above.
\<close>

theorem print_bitmap_height_mod_65536:
  "print_bitmap connected img =
     (if connected then Inr (print_bitmap_command img) else Inl AssertionError)
   \<and> length (print_bitmap_command img) = 13 + 48 * height img
   \<and> unat (print_bitmap_command img ! 8) + 256 * unat (print_bitmap_command img ! 9)
       = height img mod 65536"
  by (simp add: print_bitmap_def send_data_def length_print_bitmap_command
      print_bitmap_command_header_height)

text \<open>
  Claim C1 as stated fails on a white image of 384 by 70000: no error is raised, the
  3360013 bytes of the command are sent, and the header holds \<open>70 11\<close>, which is
  4464, the height modulo 65536.
\<close>

theorem print_bitmap_height_70000:
  "65535 < height (new_image 384 70000 True)
   \<and> print_bitmap True (new_image 384 70000 True)
       = Inr (print_bitmap_command (new_image 384 70000 True))
   \<and> length (print_bitmap_command (new_image 384 70000 True)) = 3360013
   \<and> take 10 (print_bitmap_command (new_image 384 70000 True))
       = [0x1B, 0x40, 0x1D, 0x76, 0x30, 0x00, 0x30, 0x00, 0x70, 0x11]"
  by (simp add: print_bitmap_def send_data_def length_print_bitmap_command
      print_bitmap_command_eq length_payload new_image_def)

text \<open>
  Claim C10, as the code has it. Whatever the width of the input, the image that is
  packed has the height of the input, the payload has 48 bytes for each of its rows,
  and the header bytes \<open>yL yH\<close> are the low and the high byte of the input's height:
  read little-endian they are that height modulo 65536, so the height itself up to
  65535 and a truncated value above.
\<close>

theorem print_bitmap_height_unchanged:
  "height (print_bitmap_canvas img) = height img
   \<and> length (tobytes (print_bitmap_canvas img)) = 48 * height img
   \<and> drop 10 (print_bitmap_command img) = tobytes (print_bitmap_canvas img) @ [0x0A, 0x0A, 0x0A]
   \<and> print_bitmap_command img ! 8 = of_nat (height img mod 256)
   \<and> print_bitmap_command img ! 9 = of_nat (height img div 256 mod 256)
   \<and> unat (print_bitmap_command img ! 8) + 256 * unat (print_bitmap_command img ! 9)
       = height img mod 65536"
proof -
  have "unat (print_bitmap_command img ! 8) + 256 * unat (print_bitmap_command img ! 9)
          = height img mod 65536"
    by (rule print_bitmap_command_header_height)
  then show ?thesis
    by (simp add: height_print_bitmap_canvas length_payload print_bitmap_command_drop
        print_bitmap_command_nth8 print_bitmap_command_nth9)
qed

text \<open>
  Claim C10 as stated fails on a black image of 8 by 70000: the image that is packed
  is still 70000 rows high, with 3360000 bytes of payload, but the header holds
  \<open>70 11\<close>, which read little-endian is 4464, not 70000.
\<close>

theorem print_bitmap_header_height_8x70000:
  "height (new_image 8 70000 False) = 70000
   \<and> height (print_bitmap_canvas (new_image 8 70000 False)) = 70000
   \<and> length (tobytes (print_bitmap_canvas (new_image 8 70000 False))) = 3360000
   \<and> print_bitmap_command (new_image 8 70000 False) ! 8 = 0x70
   \<and> print_bitmap_command (new_image 8 70000 False) ! 9 = 0x11
   \<and> unat (print_bitmap_command (new_image 8 70000 False) ! 8)
       + 256 * unat (print_bitmap_command (new_image 8 70000 False) ! 9) = 4464"
proof -
  have h: "height (new_image 8 70000 False) = 70000"
    by (simp add: new_image_def)
  have "unat (print_bitmap_command (new_image 8 70000 False) ! 8)
       + 256 * unat (print_bitmap_command (new_image 8 70000 False) ! 9) = 70000 mod 65536"
    using print_bitmap_command_header_height [of "new_image 8 70000 False"] h by simp
  then show ?thesis
    using h
    by (simp add: height_print_bitmap_canvas length_payload print_bitmap_command_nth8
        print_bitmap_command_nth9)
qed

lemma getpixel_print_bitmap_canvas_narrow:
  "width img < 384 \<Longrightarrow>
   getpixel (print_bitmap_canvas img) x y =
     (if (384 - width img) div 2 \<le> x \<and> x < (384 - width img) div 2 + width img \<and> y < height img
      then getpixel img (x - (384 - width img) div 2) y else True)"
  by (simp add: print_bitmap_canvas_def PRINT_WIDTH_def new_image_def paste_def Let_def)

lemma getpixel_print_bitmap_canvas_wide:
  "384 < width img \<Longrightarrow> x < 384 \<Longrightarrow> y < height img \<Longrightarrow>
   getpixel (print_bitmap_canvas img) x y = getpixel img x y"
  by (simp add: print_bitmap_canvas_def PRINT_WIDTH_def crop_def Let_def)

lemma unpack_pixel_payload:
  "x < 384 \<Longrightarrow> y < height img \<Longrightarrow>
   unpack_pixel 384 (tobytes (print_bitmap_canvas img)) x y
     = getpixel (print_bitmap_canvas img) x y"
  by (rule unpack_pixel_tobytes)
    (simp_all add: width_print_bitmap_canvas height_print_bitmap_canvas)

text \<open>
  Claim C7. For an image whose width is not 384, the image that is packed is 384 wide
  and its payload has 48 bytes per row. Bit \<open>(x, y)\<close> of the payload, for \<open>x < 384\<close>,
  is: for a narrower image, the sample \<open>(x - offset, y)\<close> of the input where
  \<open>offset \<le> x < offset + width\<close> with \<open>offset = (384 - width) div 2\<close>, and white
  elsewhere; for a wider image, the sample \<open>(x, y)\<close> of the input, so that no sample of
  a column from 384 on is in the payload.
\<close>

theorem print_bitmap_width_normalised:
  "width img \<noteq> 384 \<Longrightarrow>
   width (print_bitmap_canvas img) = 384
   \<and> drop 10 (print_bitmap_command img) = tobytes (print_bitmap_canvas img) @ [0x0A, 0x0A, 0x0A]
   \<and> length (tobytes (print_bitmap_canvas img)) = 48 * height img
   \<and> (\<forall>x y. x < 384 \<and> y < height img \<longrightarrow>
        unpack_pixel 384 (tobytes (print_bitmap_canvas img)) x y =
          (if width img < 384
           then (if (384 - width img) div 2 \<le> x \<and> x < (384 - width img) div 2 + width img
                 then getpixel img (x - (384 - width img) div 2) y else True)
           else getpixel img x y))"
proof (intro conjI allI impI)
  fix x y :: nat
  assume xy: "x < 384 \<and> y < height img" and w: "width img \<noteq> 384"
  show "unpack_pixel 384 (tobytes (print_bitmap_canvas img)) x y =
          (if width img < 384
           then (if (384 - width img) div 2 \<le> x \<and> x < (384 - width img) div 2 + width img
                 then getpixel img (x - (384 - width img) div 2) y else True)
           else getpixel img x y)"
  proof (cases "width img < 384")
    case True
    with xy show ?thesis
      by (simp add: unpack_pixel_payload getpixel_print_bitmap_canvas_narrow)
  next
    case False
    with w have "384 < width img" by simp
    with xy False show ?thesis
      by (simp add: unpack_pixel_payload getpixel_print_bitmap_canvas_wide)
  qed
qed (simp_all add: width_print_bitmap_canvas print_bitmap_command_drop length_payload)

theorem print_bitmap_width_normalised_witness:
  "width (new_image 8 1 False) \<noteq> 384
   \<and> width (print_bitmap_canvas (new_image 8 1 False)) = 384
   \<and> unpack_pixel 384 (tobytes (print_bitmap_canvas (new_image 8 1 False))) 187 0 = True
   \<and> unpack_pixel 384 (tobytes (print_bitmap_canvas (new_image 8 1 False))) 188 0 = False
   \<and> unpack_pixel 384 (tobytes (print_bitmap_canvas (new_image 8 1 False))) 195 0 = False
   \<and> unpack_pixel 384 (tobytes (print_bitmap_canvas (new_image 8 1 False))) 196 0 = True
   \<and> width wide_image \<noteq> 384
   \<and> width (print_bitmap_canvas wide_image) = 384
   \<and> length (tobytes (print_bitmap_canvas wide_image)) = 48
   \<and> unpack_pixel 384 (tobytes (print_bitmap_canvas wide_image)) 383 0 = True"
  using print_bitmap_width_normalised [of "new_image 8 1 False"]
    print_bitmap_width_normalised [of wide_image]
  by (simp add: new_image_def wide_image_def)

section \<open>Properties of \<^verbatim>\<open>markdown_to_bitmap\<close>\<close>

subsection \<open>The replacements\<close>

lemma str_replace_single:
  "str_replace s [c] new = concat (map (\<lambda>x. if x = c then new else [x]) s)"
proof (induction s)
  case Nil
  show ?case by (simp add: str_replace.simps [of "[]"])
next
  case (Cons a s)
  then show ?case by (simp add: str_replace.simps [of "a # s"])
qed

lemma single_replacements:
  "str_replace (str_replace (str_replace (str_replace s
       [9633] [8226, 32]) [9744] [8226, 32]) [35] []) [42] []
     = concat (map desym_char s)"
  unfolding str_replace_single by (induction s) (simp_all add: desym_char_def)

lemma desym_newline_escape:
  "concat (map desym_char (str_replace s [92, 110] [10])) = desymbolize_spec s"
proof (induction s rule: desymbolize_spec.induct)
  case 1
  show ?case by (simp add: str_replace.simps [of "[]"])
next
  case (2 c)
  show ?case
    by (simp add: str_replace.simps [of "[c]"] str_replace.simps [of "[]"] desym_char_def)
next
  case (3 c d cs)
  show ?case
  proof (cases "c = 92 \<and> d = 110")
    case True
    with 3 show ?thesis
      by (simp add: str_replace.simps [of "92 # 110 # cs"] desym_char_def)
  next
    case False
    with 3 show ?thesis
      by (auto simp add: str_replace.simps [of "c # d # cs"] desym_char_def)
  qed
qed

lemma markdown_to_bitmap_text_eq: "markdown_to_bitmap_text s = desymbolize_spec s"
  by (simp add: markdown_to_bitmap_text_def single_replacements desym_newline_escape)

lemma desymbolize_spec_clean:
  "c \<in> set (desymbolize_spec s) \<Longrightarrow> c \<noteq> 35 \<and> c \<noteq> 42 \<and> c \<noteq> 9633 \<and> c \<noteq> 9744"
  by (induction s rule: desymbolize_spec.induct) (auto split: if_splits)

text \<open>
  Claim C3, as the code has it. \<^verbatim>\<open>markdown_to_bitmap\<close> desymbolises before any
  layout: its chain of replacements is the one pass of the specification (an escaped
  \<^verbatim>\<open>\n\<close> becomes a line feed, a checkbox glyph becomes a bullet and a space, \<^verbatim>\<open>#\<close> and
  \<^verbatim>\<open>*\<close> go), the text it hands to the drawing has none of \<^verbatim>\<open>#\<close>, \<^verbatim>\<open>*\<close> and the two
  glyphs, and the drawing sees that text only. \<^verbatim>\<open>text_to_bitmap\<close> has no such step.
\<close>

theorem markdown_to_bitmap_desymbolizes:
  "markdown_to_bitmap_text s = desymbolize_spec s
   \<and> 35 \<notin> set (markdown_to_bitmap_text s) \<and> 42 \<notin> set (markdown_to_bitmap_text s)
   \<and> 9633 \<notin> set (markdown_to_bitmap_text s) \<and> 9744 \<notin> set (markdown_to_bitmap_text s)
   \<and> markdown_to_bitmap rasterize s =
       (let img = \<lparr>width = 384, height = 2000, getpixel = rasterize (desymbolize_spec s)\<rparr>
        in invert (case getbbox img of Some box \<Rightarrow> crop img box | None \<Rightarrow> img))"
  using desymbolize_spec_clean [of _ s]
  by (auto simp add: markdown_to_bitmap_text_eq markdown_to_bitmap_def Let_def PRINT_WIDTH_def)

text \<open>
  Claim C3 as stated fails on the text \<^verbatim>\<open>#*a\<close>: the one line that \<^verbatim>\<open>text_to_bitmap\<close>
  measures and draws is \<^verbatim>\<open>#*a\<close> itself, where \<^verbatim>\<open>markdown_to_bitmap\<close> draws \<^verbatim>\<open>a\<close>.
\<close>

theorem text_to_bitmap_keeps_symbols:
  "text_to_bitmap_lines [35, 42, 97] = [[35, 42, 97]]
   \<and> max_len (text_to_bitmap_lines [35, 42, 97]) = Inr [35, 42, 97]
   \<and> markdown_to_bitmap_text [35, 42, 97] = [97]"
  by (simp add: text_to_bitmap_lines_def str_strip_def isspace_def markdown_to_bitmap_text_eq)

subsection \<open>The crop\<close>

lemma hd_filter_upt: "0 < n \<Longrightarrow> P 0 \<Longrightarrow> hd (filter P [0..<n]) = 0"
  by (simp add: upt_conv_Cons)

lemma last_filter_upt:
  "0 < n \<Longrightarrow> P (n - 1) \<Longrightarrow> last (filter P [0..<n]) = n - 1"
proof -
  assume "0 < n" "P (n - 1)"
  then have "[0..<n] = [0..<n - 1] @ [n - 1]"
    by (cases n) simp_all
  with \<open>P (n - 1)\<close> show ?thesis by simp
qed

lemma filter_upt_nonempty: "0 < n \<Longrightarrow> P 0 \<Longrightarrow> filter P [0..<n] \<noteq> []"
  by (simp add: upt_conv_Cons)

text \<open>
  An image with a non-zero sample in its top left and in its bottom right corner has
  the whole image for a bounding box.
\<close>

lemma getbbox_full:
  assumes "0 < width img" "0 < height img"
    and "getpixel img 0 0" "getpixel img (width img - 1) (height img - 1)"
  shows "getbbox img = Some (0, 0, width img, height img)"
proof -
  let ?P = "\<lambda>x. list_ex (\<lambda>y. getpixel img x y) [0..<height img]"
  let ?Q = "\<lambda>y. list_ex (\<lambda>x. getpixel img x y) [0..<width img]"
  have P0: "?P 0" and Q0: "?Q 0"
    using assms by (auto simp: list_ex_iff)
  have P1: "?P (width img - 1)"
    using assms by (auto simp: list_ex_iff intro!: bexI[of _ "height img - 1"])
  have Q1: "?Q (height img - 1)"
    using assms by (auto simp: list_ex_iff intro!: bexI[of _ "width img - 1"])
  have "filter ?Q [0..<height img] \<noteq> []"
    using assms(2) Q0 by (rule filter_upt_nonempty)
  moreover have "hd (filter ?P [0..<width img]) = 0"
    using assms(1) P0 by (rule hd_filter_upt)
  moreover have "hd (filter ?Q [0..<height img]) = 0"
    using assms(2) Q0 by (rule hd_filter_upt)
  moreover have "last (filter ?P [0..<width img]) = width img - 1"
    using assms(1) P1 by (rule last_filter_upt)
  moreover have "last (filter ?Q [0..<height img]) = height img - 1"
    using assms(2) Q1 by (rule last_filter_upt)
  ultimately show ?thesis
    using assms(1,2) by (simp add: getbbox_def Let_def)
qed

text \<open>
  The bounding box is taken before the inversion, when the background is the non-zero
  sample. A drawing that leaves the two corners white is therefore not cropped at all.
\<close>

lemma markdown_to_bitmap_uncropped:
  assumes "rasterize (markdown_to_bitmap_text markdown_text) 0 0"
    and "rasterize (markdown_to_bitmap_text markdown_text) 383 1999"
  shows "markdown_to_bitmap rasterize markdown_text =
     \<lparr>width = 384, height = 2000,
      getpixel = (\<lambda>x y. \<not> (x < 384 \<and> y < 2000
                   \<and> rasterize (markdown_to_bitmap_text markdown_text) x y))\<rparr>"
proof -
  let ?img = "\<lparr>width = PRINT_WIDTH, height = 2000,
               getpixel = rasterize (markdown_to_bitmap_text markdown_text)\<rparr>"
  have "getbbox ?img = Some (0, 0, width ?img, height ?img)"
    by (rule getbbox_full) (simp_all add: PRINT_WIDTH_def assms)
  then show ?thesis
    by (simp add: markdown_to_bitmap_def Let_def crop_def invert_def PRINT_WIDTH_def)
qed

text \<open>
  Claim C6 asks for an image 384 wide whose height is that of the tight bounding box
  of the content. On the code, the text \<^verbatim>\<open>Hi\<close> drawn as a block of ink in the rows 10
  to 33 gives an image 384 wide and 2000 high: the rows above 10 and from 34 on, all
  background, are still there.
\<close>

theorem markdown_to_bitmap_keeps_scratch_height:
  "width (markdown_to_bitmap rasterize_block [72, 105]) = 384
   \<and> height (markdown_to_bitmap rasterize_block [72, 105]) = 2000
   \<and> getpixel (markdown_to_bitmap rasterize_block [72, 105]) 0 0 = False
   \<and> getpixel (markdown_to_bitmap rasterize_block [72, 105]) 10 9 = False
   \<and> getpixel (markdown_to_bitmap rasterize_block [72, 105]) 10 10 = True
   \<and> getpixel (markdown_to_bitmap rasterize_block [72, 105]) 10 33 = True
   \<and> getpixel (markdown_to_bitmap rasterize_block [72, 105]) 10 34 = False"
proof -
  have "markdown_to_bitmap_text [72, 105] = [72, 105]"
    by (simp add: markdown_to_bitmap_text_eq)
  then show ?thesis
    by (simp add: markdown_to_bitmap_uncropped rasterize_block_def)
qed

section \<open>Properties of \<^verbatim>\<open>text_to_bitmap\<close>\<close>

text \<open>No line is left exactly when every character of the text is white space.\<close>

lemma str_split_nonempty: "str_split s sep \<noteq> []"
  by (induction s) (auto split: list.splits)

lemma str_split_all:
  "(\<forall>l \<in> set (str_split s sep). \<forall>c \<in> set l. P c) \<longleftrightarrow> (\<forall>c \<in> set s. c \<noteq> sep \<longrightarrow> P c)"
proof (induction s)
  case Nil
  show ?case by simp
next
  case (Cons a s)
  obtain l ls where split: "str_split s sep = l # ls"
    using str_split_nonempty [of s sep] by (cases "str_split s sep") auto
  with Cons show ?case by auto
qed

lemma str_strip_empty_iff: "str_strip s = [] \<longleftrightarrow> (\<forall>c \<in> set s. isspace c)"
proof
  assume "str_strip s = []"
  then have "dropWhile isspace (rev (dropWhile isspace s)) = []"
    by (simp add: str_strip_def)
  then have "\<forall>c \<in> set (dropWhile isspace s). isspace c"
    by (simp add: dropWhile_eq_Nil_conv)
  moreover have "dropWhile isspace s = [] \<or> \<not> isspace (hd (dropWhile isspace s))"
    using hd_dropWhile [of isspace s] by blast
  ultimately have "dropWhile isspace s = []"
    by (cases "dropWhile isspace s") auto
  then show "\<forall>c \<in> set s. isspace c"
    by (simp add: dropWhile_eq_Nil_conv)
next
  assume "\<forall>c \<in> set s. isspace c"
  then have drop: "dropWhile isspace s = []"
    by (induction s) auto
  show "str_strip s = []"
    by (simp only: str_strip_def drop rev.simps dropWhile.simps)
qed

lemma text_to_bitmap_lines_empty_iff:
  "text_to_bitmap_lines text = [] \<longleftrightarrow> (\<forall>c \<in> set text. isspace c)"
proof -
  have "text_to_bitmap_lines text = [] \<longleftrightarrow> (\<forall>l \<in> set (str_split text 10). str_strip l = [])"
    by (auto simp add: text_to_bitmap_lines_def filter_empty_conv)
  also have "\<dots> \<longleftrightarrow> (\<forall>l \<in> set (str_split text 10). \<forall>c \<in> set l. isspace c)"
    by (simp add: str_strip_empty_iff)
  also have "\<dots> \<longleftrightarrow> (\<forall>c \<in> set text. c \<noteq> 10 \<longrightarrow> isspace c)"
    by (rule str_split_all)
  also have "\<dots> \<longleftrightarrow> (\<forall>c \<in> set text. isspace c)"
    by (auto simp add: isspace_def)
  finally show ?thesis .
qed

text \<open>
  Claim C5. When no line is left after stripping the lines and dropping the empty
  ones, \<^verbatim>\<open>text_to_bitmap\<close> fails: \<^verbatim>\<open>max\<close> of the empty list raises \<^verbatim>\<open>ValueError\<close>, and
  nothing is measured or drawn.
\<close>

theorem text_to_bitmap_empty_input:
  "text_to_bitmap_lines text = [] \<Longrightarrow> text_to_bitmap textbbox draw_text text = Inl ValueError"
  by (simp add: text_to_bitmap_def)

theorem text_to_bitmap_empty_input_witness:
  "text_to_bitmap_lines [32, 10, 10, 9] = []
   \<and> text_to_bitmap textbbox_scalable draw_text_none [32, 10, 10, 9] = Inl ValueError"
proof -
  have h: "text_to_bitmap_lines [32, 10, 10, 9] = []"
    by (simp add: text_to_bitmap_lines_def str_strip_def isspace_def)
  show ?thesis
    using h text_to_bitmap_empty_input [OF h, of textbbox_scalable draw_text_none] by simp
qed

text \<open>
  The loop of the search, from any state that it can be in: the best size so far is
  \<open>min_font - 1\<close> and fits, or is still the initial 16 when \<open>min_font\<close> is still 8; and
  the size just above \<open>max_font\<close>, if there is one, does not fit.
\<close>

lemma font_search_local:
  "8 \<le> lo \<Longrightarrow> lo \<le> hi + 1 \<Longrightarrow> hi \<le> 200 \<Longrightarrow>
   (if lo = 8 then best = 16 else best = lo - 1 \<and> tw best \<le> 364) \<Longrightarrow>
   (hi = 200 \<or> 364 < tw (hi + 1)) \<Longrightarrow>
   (tw (font_search tw lo hi best) \<le> 364
      \<and> 8 \<le> font_search tw lo hi best \<and> font_search tw lo hi best \<le> 200
      \<and> (font_search tw lo hi best = 200 \<or> 364 < tw (font_search tw lo hi best + 1)))
   \<or> (364 < tw 8 \<and> font_search tw lo hi best = 16)"
proof (induction tw lo hi best rule: font_search.induct)
  case (1 tw lo hi best)
  let ?mid = "(lo + hi) div 2"
  show ?case
  proof (cases "lo \<le> hi")
    case False
    with "1.prems" have hi: "hi = lo - 1" by simp
    have res: "font_search tw lo hi best = best"
      using False by (simp add: font_search.simps [of tw lo hi best])
    show ?thesis
    proof (cases "lo = 8")
      case True
      with "1.prems" hi have "best = 16" and "364 < tw 8" by auto
      with res show ?thesis by simp
    next
      case False
      with "1.prems" hi have "best = hi" "8 \<le> hi" "hi \<le> 200" "tw hi \<le> 364"
        "hi = 200 \<or> 364 < tw (hi + 1)" by auto
      with res show ?thesis by simp
    qed
  next
    case True
    then have mid: "lo \<le> ?mid" "?mid \<le> hi" by simp_all
    show ?thesis
    proof (cases "tw ?mid \<le> 364")
      case fit: True
      have step: "font_search tw lo hi best = font_search tw (?mid + 1) hi ?mid"
        using True fit by (simp add: font_search.simps [of tw lo hi best] PRINT_WIDTH_def)
      have "(tw (font_search tw (?mid + 1) hi ?mid) \<le> 364
          \<and> 8 \<le> font_search tw (?mid + 1) hi ?mid \<and> font_search tw (?mid + 1) hi ?mid \<le> 200
          \<and> (font_search tw (?mid + 1) hi ?mid = 200
              \<or> 364 < tw (font_search tw (?mid + 1) hi ?mid + 1)))
        \<or> (364 < tw 8 \<and> font_search tw (?mid + 1) hi ?mid = 16)"
        using True fit mid "1.prems"
        by (intro "1.IH"(1)) (simp_all add: PRINT_WIDTH_def)
      with step show ?thesis by simp
    next
      case nofit: False
      have step: "font_search tw lo hi best = font_search tw lo (?mid - 1) best"
        using True nofit by (simp add: font_search.simps [of tw lo hi best] PRINT_WIDTH_def)
      have "(tw (font_search tw lo (?mid - 1) best) \<le> 364
          \<and> 8 \<le> font_search tw lo (?mid - 1) best \<and> font_search tw lo (?mid - 1) best \<le> 200
          \<and> (font_search tw lo (?mid - 1) best = 200
              \<or> 364 < tw (font_search tw lo (?mid - 1) best + 1)))
        \<or> (364 < tw 8 \<and> font_search tw lo (?mid - 1) best = 16)"
        using True nofit mid "1.prems"
        by (intro "1.IH"(2)) (simp_all add: PRINT_WIDTH_def)
      with step show ?thesis by simp
    qed
  qed
qed

text \<open>The search as \<^verbatim>\<open>text_to_bitmap\<close> starts it.\<close>

lemma font_search_result:
  "(tw (font_search tw 8 200 16) \<le> 364
      \<and> 8 \<le> font_search tw 8 200 16 \<and> font_search tw 8 200 16 \<le> 200
      \<and> (font_search tw 8 200 16 = 200 \<or> 364 < tw (font_search tw 8 200 16 + 1)))
   \<or> (364 < tw 8 \<and> font_search tw 8 200 16 = 16)"
  by (rule font_search_local) simp_all

text \<open>
  When the width does not decrease with the size, the sizes that fit are an initial
  segment of 8 to 200, and the search has found its end.
\<close>

lemma font_search_monotone:
  assumes mono: "\<forall>a b. 8 \<le> a \<and> a \<le> b \<and> b \<le> 200 \<longrightarrow> tw a \<le> tw b"
  shows "(tw (font_search tw 8 200 16) \<le> 364
      \<and> 8 \<le> font_search tw 8 200 16 \<and> font_search tw 8 200 16 \<le> 200
      \<and> (\<forall>k. 8 \<le> k \<and> k \<le> 200 \<and> tw k \<le> 364 \<longrightarrow> k \<le> font_search tw 8 200 16))
   \<or> ((\<forall>k. 8 \<le> k \<and> k \<le> 200 \<longrightarrow> 364 < tw k) \<and> font_search tw 8 200 16 = 16)"
proof -
  let ?r = "font_search tw 8 200 16"
  from font_search_result [of tw] show ?thesis
  proof
    assume r: "tw ?r \<le> 364 \<and> 8 \<le> ?r \<and> ?r \<le> 200 \<and> (?r = 200 \<or> 364 < tw (?r + 1))"
    have "k \<le> ?r" if k: "8 \<le> k \<and> k \<le> 200 \<and> tw k \<le> 364" for k
    proof (rule ccontr)
      assume "\<not> k \<le> ?r"
      then have less: "?r + 1 \<le> k" by simp
      with k r have next_size: "364 < tw (?r + 1)" by auto
      from mono less k r have "tw (?r + 1) \<le> tw k" by simp
      with next_size k show False by simp
    qed
    with r show ?thesis by blast
  next
    assume r: "364 < tw 8 \<and> ?r = 16"
    have "364 < tw k" if k: "8 \<le> k \<and> k \<le> 200" for k
    proof -
      from mono k have "tw 8 \<le> tw k" by simp
      with r show ?thesis by simp
    qed
    with r show ?thesis by blast
  qed
qed

text \<open>
  Claim C2, as the code has it. For a text with a longest line: either the width of
  that line at the chosen size is at most 364, which is \<open>PRINT_WIDTH - 20\<close>, the chosen
  size is from 8 to 200 and the next size, if it is at most 200, does not fit; or
  size 8 does not fit and the chosen size is 16, the value that \<^verbatim>\<open>best_font_size\<close> has
  before the loop. When the measured width does not decrease as the font size grows,
  the first case says that the chosen size is the largest size from 8 to 200 that fits,
  and the second that no size from 8 to 200 fits.
\<close>

theorem best_font_size_largest_or_16:
  "max_len (text_to_bitmap_lines text) = Inr longest_line \<Longrightarrow>
   ((bbox_width (textbbox (best_font_size textbbox longest_line) longest_line) \<le> 364
       \<and> 8 \<le> best_font_size textbbox longest_line
       \<and> best_font_size textbbox longest_line \<le> 200
       \<and> (best_font_size textbbox longest_line = 200
           \<or> 364 < bbox_width (textbbox (best_font_size textbbox longest_line + 1) longest_line)))
     \<or> (364 < bbox_width (textbbox 8 longest_line)
         \<and> best_font_size textbbox longest_line = 16))
   \<and> ((\<forall>a b. 8 \<le> a \<and> a \<le> b \<and> b \<le> 200 \<longrightarrow>
          bbox_width (textbbox a longest_line) \<le> bbox_width (textbbox b longest_line)) \<longrightarrow>
       (bbox_width (textbbox (best_font_size textbbox longest_line) longest_line) \<le> 364
          \<and> 8 \<le> best_font_size textbbox longest_line
          \<and> best_font_size textbbox longest_line \<le> 200
          \<and> (\<forall>k. 8 \<le> k \<and> k \<le> 200 \<and> bbox_width (textbbox k longest_line) \<le> 364
                \<longrightarrow> k \<le> best_font_size textbbox longest_line))
       \<or> ((\<forall>k. 8 \<le> k \<and> k \<le> 200 \<longrightarrow> 364 < bbox_width (textbbox k longest_line))
           \<and> best_font_size textbbox longest_line = 16))"
  unfolding best_font_size_def
  using font_search_result [of "\<lambda>fsize. bbox_width (textbbox fsize longest_line)"]
    font_search_monotone [of "\<lambda>fsize. bbox_width (textbbox fsize longest_line)"]
  by blast

theorem best_font_size_largest_or_16_witness:
  "max_len (text_to_bitmap_lines [97, 98]) = Inr [97, 98]
   \<and> bbox_width (textbbox_scalable (best_font_size textbbox_scalable [97, 98]) [97, 98]) \<le> 364
   \<and> 182 \<le> best_font_size textbbox_scalable [97, 98]
   \<and> best_font_size textbbox_scalable [97, 98] \<le> 200"
proof -
  have h1: "max_len (text_to_bitmap_lines [97, 98]) = Inr [97, 98]"
    by (simp add: text_to_bitmap_lines_def str_strip_def isspace_def)
  have h2: "\<forall>a b. 8 \<le> a \<and> a \<le> b \<and> b \<le> 200 \<longrightarrow>
      bbox_width (textbbox_scalable a [97, 98]) \<le> bbox_width (textbbox_scalable b [97, 98])"
    by (simp add: textbbox_scalable_def bbox_width_def)
  have fits: "bbox_width (textbbox_scalable 182 [97, 98]) \<le> 364"
    by (simp add: textbbox_scalable_def bbox_width_def)
  have none: "\<not> (\<forall>k. 8 \<le> k \<and> k \<le> 200 \<longrightarrow> 364 < bbox_width (textbbox_scalable k [97, 98]))"
  proof
    assume "\<forall>k. 8 \<le> k \<and> k \<le> 200 \<longrightarrow> 364 < bbox_width (textbbox_scalable k [97, 98])"
    then have "364 < bbox_width (textbbox_scalable 182 [97, 98])" by simp
    with fits show False by simp
  qed
  note main = best_font_size_largest_or_16 [of "[97, 98]" "[97, 98]" textbbox_scalable, OF h1]
  from main h2 none have
    "bbox_width (textbbox_scalable (best_font_size textbbox_scalable [97, 98]) [97, 98]) \<le> 364
     \<and> best_font_size textbbox_scalable [97, 98] \<le> 200
     \<and> (\<forall>k. 8 \<le> k \<and> k \<le> 200 \<and> bbox_width (textbbox_scalable k [97, 98]) \<le> 364
           \<longrightarrow> k \<le> best_font_size textbbox_scalable [97, 98])"
    by blast
  with fits h1 show ?thesis by simp
qed

text \<open>
  Claim C2 as stated fails on a line of 46 characters in the font whose characters are
  as wide as the font size: no size from 8 to 200 fits (368 pixels at size 8), and the
  chosen size is 16, not 8; the line is 736 pixels wide at that size.
\<close>

theorem best_font_size_nothing_fits:
  "max_len (text_to_bitmap_lines (replicate 46 97)) = Inr (replicate 46 97)
   \<and> best_font_size textbbox_scalable (replicate 46 97) = 16
   \<and> bbox_width (textbbox_scalable 16 (replicate 46 97)) = 736
   \<and> bbox_width (textbbox_scalable 8 (replicate 46 97)) = 368"
proof -
  have lines: "max_len (text_to_bitmap_lines (replicate 46 97)) = Inr (replicate 46 97)"
    by code_simp
  have "best_font_size textbbox_scalable (replicate 46 97) = 16"
    by (simp add: best_font_size_def font_search.simps textbbox_scalable_def bbox_width_def
        PRINT_WIDTH_def)
  with lines show ?thesis
    by (simp add: textbbox_scalable_def bbox_width_def)
qed

end
